theory Spec2Isabelle
  imports Main
begin

section \<open>Python values\<close>

text \<open>
  A Python \<open>str\<close> is a sequence of code points, a \<open>bytes\<close> object a sequence of
  bytes. Isabelle's \<open>char\<close> is a byte, so \<open>bytes\<close> is \<open>string\<close> and \<open>str\<close> is a
  list of numbers. \<open>py_str\<close> writes an ASCII literal as a \<open>str\<close>.
\<close>

type_synonym pystr = "nat list"

definition py_str :: "string \<Rightarrow> pystr" where
  "py_str s = map of_char s"

text \<open>The exceptions that the modelled paths raise. \<open>sys.exit(1)\<close> raises \<open>SystemExit 1\<close>.\<close>

datatype exn =
    IndexError
  | KeyError
  | ZeroDivisionError
  | FileNotFoundError
  | UnicodeEncodeError
  | UnicodeDecodeError
  | JSONDecodeError
  | LZMAError
  | RedisError
  | DataError
  | SystemExit int

text \<open>
  The values a row of \<open>csv.DictReader\<close> holds: a cell (\<open>str\<close>), \<open>None\<close> (the
  \<open>restval\<close> of a short row) or a list of cells (under the \<open>restkey\<close> of a long row).
  The keys of a row are field names or \<open>None\<close> (the \<open>restkey\<close>). A \<open>dict\<close> keeps its
  keys in insertion order: it is an association list, updated in place.
\<close>

datatype pyval = Str pystr | NoneVal | StrList "pystr list"

type_synonym pydict = "(pystr option \<times> pyval) list"

fun dict_setitem :: "('k \<times> 'v) list \<Rightarrow> 'k \<Rightarrow> 'v \<Rightarrow> ('k \<times> 'v) list" where
  "dict_setitem [] k v = [(k, v)]"
| "dict_setitem ((k', v') # d) k v =
     (if k' = k then (k', v) # d else (k', v') # dict_setitem d k v)"

fun dict_getitem :: "('k \<times> 'v) list \<Rightarrow> 'k \<Rightarrow> exn + 'v" where
  "dict_getitem [] k = Inl KeyError"
| "dict_getitem ((k', v') # d) k = (if k' = k then Inr v' else dict_getitem d k)"

definition dict_from_pairs :: "('k \<times> 'v) list \<Rightarrow> ('k \<times> 'v) list" where
  "dict_from_pairs ps = foldl (\<lambda>d (k, v). dict_setitem d k v) [] ps"

text \<open>\<open>xs[0]\<close>, \<open>a % b\<close> and \<open>round(x, -k)\<close> on an \<open>int\<close> (ties go to the even multiple).\<close>

definition list_getitem0 :: "'a list \<Rightarrow> exn + 'a" where
  "list_getitem0 xs = (case xs of [] \<Rightarrow> Inl IndexError | x # _ \<Rightarrow> Inr x)"

definition py_mod :: "int \<Rightarrow> int \<Rightarrow> exn + int" where
  "py_mod a b = (if b = 0 then Inl ZeroDivisionError else Inr (a mod b))"

definition py_round :: "int \<Rightarrow> nat \<Rightarrow> int" where
  "py_round x k =
     (let p = 10 ^ k; q = x div p; r = x mod p
      in if 2 * r < p then q * p
         else if p < 2 * r then (q + 1) * p
         else if even q then q * p
         else (q + 1) * p)"

text \<open>
  \<open>template.format(*args)\<close>, as far as it can fail: \<open>fields\<close> are the positional
  indices of the template's replacement fields. An index beyond the arguments raises
  IndexError; otherwise the arguments are placed in the order of the fields.
\<close>

datatype fmt_arg = Arg_int int | Arg_exn exn

definition str_format :: "nat list \<Rightarrow> 'a list \<Rightarrow> exn + 'a list" where
  "str_format fields args =
     (if list_all (\<lambda>i. i < length args) fields
      then Inr (map (\<lambda>i. args ! i) fields)
      else Inl IndexError)"

section \<open>The csv source\<close>

text \<open>
  \<open>store_csv\<close> reads its file twice: \<open>_get_record_count\<close> counts the newline
  characters, and \<open>csv.reader\<close> yields the rows, each a list of cells, together with
  \<open>line_num\<close>, the number of lines read when the row is complete. A source is what the
  two readers deliver: \<open>newlines\<close>, and \<open>csv_rows\<close> with the header first. A blank line
  is the row \<open>[]\<close>.
\<close>

type_synonym csv_row = "int \<times> pystr list"

record source =
  newlines :: int
  csv_rows :: "csv_row list"

definition get_record_count :: "source \<Rightarrow> int" where
  "get_record_count f = newlines f"

text \<open>
  \<open>csv.DictReader.__next__\<close>: blank rows are skipped; the cells are zipped with the
  field names; a long row keeps its surplus cells as a list under the key \<open>None\<close>; a
  short row gets \<open>None\<close> for each field name without a cell.
\<close>

definition dictreader_row :: "pystr list \<Rightarrow> pystr list \<Rightarrow> pydict" where
  "dictreader_row fieldnames row =
     (let d = dict_from_pairs (zip (map Some fieldnames) (map Str row));
          lf = length fieldnames;
          lr = length row
      in if lf < lr then dict_setitem d None (StrList (drop lf row))
         else if lr < lf then foldl (\<lambda>d key. dict_setitem d (Some key) NoneVal) d (drop lr fieldnames)
         else d)"

definition dictreader_rows :: "pystr list \<Rightarrow> csv_row list \<Rightarrow> (int \<times> pydict) list" where
  "dictreader_rows fieldnames rows =
     map (\<lambda>(line_num, row). (line_num, dictreader_row fieldnames row))
       (filter (\<lambda>(line_num, row). row \<noteq> []) rows)"

section \<open>The record codec: JSON text in an XZ container\<close>

subsection \<open>\<open>json.dumps\<close>\<close>

text \<open>
  \<open>json.dumps\<close> with its defaults (\<open>ensure_ascii\<close>, separators \<open>", "\<close> and \<open>": "\<close>).
  A character outside \<open>' '..'~'\<close>, a quote and a backslash are escaped: by a short
  escape where JSON has one, else by \<open>\uXXXX\<close>, a code point from 0x10000 on by a
  surrogate pair. In \<open>escape_ascii\<close> the pair is written with \<open>div\<close>, \<open>mod\<close> and
  \<open>+\<close> where Python shifts, masks and ors: the operands have no bit in common.
\<close>

definition hex_digit :: "nat \<Rightarrow> nat" where
  "hex_digit d = (if d < 10 then 0x30 + d else 0x57 + d)"

definition hex4 :: "nat \<Rightarrow> pystr" where
  "hex4 n = [hex_digit (n div 4096 mod 16), hex_digit (n div 256 mod 16),
             hex_digit (n div 16 mod 16), hex_digit (n mod 16)]"

definition escape_ascii :: "nat \<Rightarrow> pystr" where
  "escape_ascii c =
     (if c = 0x5C then [0x5C, 0x5C]
      else if c = 0x22 then [0x5C, 0x22]
      else if c = 0x08 then [0x5C, 0x62]
      else if c = 0x0C then [0x5C, 0x66]
      else if c = 0x0A then [0x5C, 0x6E]
      else if c = 0x0D then [0x5C, 0x72]
      else if c = 0x09 then [0x5C, 0x74]
      else if 0x20 \<le> c \<and> c \<le> 0x7E then [c]
      else if c < 0x10000 then [0x5C, 0x75] @ hex4 c
      else (let n = c - 0x10000;
                s1 = 0xD800 + n div 1024 mod 1024;
                s2 = 0xDC00 + n mod 1024
            in [0x5C, 0x75] @ hex4 s1 @ [0x5C, 0x75] @ hex4 s2))"

definition encode_basestring_ascii :: "pystr \<Rightarrow> pystr" where
  "encode_basestring_ascii s = [0x22] @ concat (map escape_ascii s) @ [0x22]"

fun join :: "'a list \<Rightarrow> 'a list list \<Rightarrow> 'a list" where
  "join sep [] = []"
| "join sep [x] = x"
| "join sep (x # y # xs) = x @ sep @ join sep (y # xs)"

fun json_value :: "pyval \<Rightarrow> pystr" where
  "json_value (Str s) = encode_basestring_ascii s"
| "json_value NoneVal = py_str ''null''"
| "json_value (StrList xs) =
     py_str ''['' @ join (py_str '', '') (map encode_basestring_ascii xs) @ py_str '']''"

text \<open>A key that is \<open>None\<close> is written as the string \<open>"null"\<close>.\<close>

fun json_key :: "pystr option \<Rightarrow> pystr" where
  "json_key (Some k) = encode_basestring_ascii k"
| "json_key None = encode_basestring_ascii (py_str ''null'')"

definition json_dumps :: "pydict \<Rightarrow> pystr" where
  "json_dumps d =
     py_str ''{'' @ join (py_str '', '') (map (\<lambda>(k, v). json_key k @ py_str '': '' @ json_value v) d)
       @ py_str ''}''"

subsection \<open>\<open>str.encode("UTF-8")\<close>\<close>

fun utf8 :: "nat \<Rightarrow> string option" where
  "utf8 c =
     (if c < 0x80 then Some [char_of c]
      else if c < 0x800 then Some [char_of (0xC0 + c div 64), char_of (0x80 + c mod 64)]
      else if 0xD800 \<le> c \<and> c \<le> 0xDFFF then None
      else if c < 0x10000 then
        Some [char_of (0xE0 + c div 4096), char_of (0x80 + c div 64 mod 64), char_of (0x80 + c mod 64)]
      else if c < 0x110000 then
        Some [char_of (0xF0 + c div 262144), char_of (0x80 + c div 4096 mod 64),
              char_of (0x80 + c div 64 mod 64), char_of (0x80 + c mod 64)]
      else None)"

definition str_encode :: "pystr \<Rightarrow> exn + string" where
  "str_encode s =
     (if list_all (\<lambda>c. utf8 c \<noteq> None) s then Inr (concat (map (\<lambda>c. the (utf8 c)) s))
      else Inl UnicodeEncodeError)"

subsection \<open>\<open>lzma\<close>\<close>

text \<open>
  The XZ container is modelled by its contract, not by its bytes: a blob either is an XZ
  stream, which carries its payload under a checksum, or it is something else, which
  \<open>lzma.decompress\<close> refuses.
\<close>

datatype blob = Xz string | Not_xz string

definition lzma_compress :: "string \<Rightarrow> blob" where
  "lzma_compress data = Xz data"

definition lzma_decompress :: "blob \<Rightarrow> exn + string" where
  "lzma_decompress b = (case b of Xz data \<Rightarrow> Inr data | Not_xz _ \<Rightarrow> Inl LZMAError)"

subsection \<open>\<open>json.loads\<close>\<close>

text \<open>
  \<open>json.loads\<close> is modelled for the documents that \<open>json.dumps\<close> writes for a row:
  ASCII bytes that spell one object whose values are strings, \<open>null\<close> or arrays of
  strings, with any white space between the tokens. Every other input is answered by
  an error here; nothing below is claimed about other JSON documents.

  \<open>lex\<close> cuts the text into tokens. Inside a string (\<open>Some acc\<close>) it is
  \<open>py_scanstring\<close>: a quote ends the string, a backslash starts an escape, a control
  character is refused, and a \<open>\uXXXX\<close> of a high surrogate is joined with a
  following \<open>\uXXXX\<close> of a low surrogate.
\<close>

definition bytes_decode :: "string \<Rightarrow> pystr option" where
  "bytes_decode b = (if list_all (\<lambda>c. of_char c < (0x80 :: nat)) b then Some (map of_char b) else None)"

definition hex_value :: "nat \<Rightarrow> nat option" where
  "hex_value c =
     (if 0x30 \<le> c \<and> c \<le> 0x39 then Some (c - 0x30)
      else if 0x61 \<le> c \<and> c \<le> 0x66 then Some (c - 0x57)
      else if 0x41 \<le> c \<and> c \<le> 0x46 then Some (c - 0x37)
      else None)"

definition decode_uXXXX :: "pystr \<Rightarrow> nat option" where
  "decode_uXXXX esc =
     (case map hex_value esc of
        [Some a, Some b, Some c, Some d] \<Rightarrow> Some (((a * 16 + b) * 16 + c) * 16 + d)
      | _ \<Rightarrow> None)"

definition backslash :: "nat \<Rightarrow> nat option" where
  "backslash esc =
     (if esc = 0x22 then Some 0x22
      else if esc = 0x5C then Some 0x5C
      else if esc = 0x2F then Some 0x2F
      else if esc = 0x62 then Some 0x08
      else if esc = 0x66 then Some 0x0C
      else if esc = 0x6E then Some 0x0A
      else if esc = 0x72 then Some 0x0D
      else if esc = 0x74 then Some 0x09
      else None)"

datatype token =
    T_lbrace | T_rbrace | T_lbrack | T_rbrack | T_colon | T_comma | T_null | T_string pystr

definition emit :: "token \<Rightarrow> token list option \<Rightarrow> token list option" where
  "emit t r = (case r of None \<Rightarrow> None | Some ts \<Rightarrow> Some (t # ts))"

function lex :: "pystr option \<Rightarrow> pystr \<Rightarrow> token list option" where
  "lex None [] = Some []"
| "lex (Some acc) [] = None"
| "lex None (c # s) =
     (if c = 0x20 \<or> c = 0x09 \<or> c = 0x0A \<or> c = 0x0D then lex None s
      else if c = 0x22 then lex (Some []) s
      else if c = 0x7B then emit T_lbrace (lex None s)
      else if c = 0x7D then emit T_rbrace (lex None s)
      else if c = 0x5B then emit T_lbrack (lex None s)
      else if c = 0x5D then emit T_rbrack (lex None s)
      else if c = 0x3A then emit T_colon (lex None s)
      else if c = 0x2C then emit T_comma (lex None s)
      else if c = 0x6E \<and> take 3 s = [0x75, 0x6C, 0x6C] then emit T_null (lex None (drop 3 s))
      else None)"
| "lex (Some acc) (c # s) =
     (if c = 0x22 then emit (T_string acc) (lex None s)
      else if c = 0x5C then
        (case s of
           [] \<Rightarrow> None
         | esc # s1 \<Rightarrow>
             if esc = 0x75 then
               (case decode_uXXXX (take 4 s1) of
                  None \<Rightarrow> None
                | Some uni \<Rightarrow>
                    if 0xD800 \<le> uni \<and> uni \<le> 0xDBFF \<and> take 2 (drop 4 s1) = [0x5C, 0x75] then
                      (case decode_uXXXX (take 4 (drop 6 s1)) of
                         None \<Rightarrow> None
                       | Some uni2 \<Rightarrow>
                           if 0xDC00 \<le> uni2 \<and> uni2 \<le> 0xDFFF
                           then lex (Some (acc @ [0x10000 + (uni - 0xD800) * 1024 + (uni2 - 0xDC00)]))
                                  (drop 10 s1)
                           else lex (Some (acc @ [uni])) (drop 4 s1))
                    else lex (Some (acc @ [uni])) (drop 4 s1))
             else
               (case backslash esc of
                  None \<Rightarrow> None
                | Some ch \<Rightarrow> lex (Some (acc @ [ch])) s1))
      else if c < 0x20 then None
      else lex (Some (acc @ [c])) s)"
  by pat_completeness auto
termination
  by (relation "measure (\<lambda>(m, s). length s)") auto

text \<open>
  The parser reads the tokens of one object from left to right; its state says what it
  has read and what may follow. The members are collected as pairs, as \<open>JSONObject\<close>
  does, and become a \<open>dict\<close> at the end.
\<close>

datatype pstate =
    P_start
  | P_first_key
  | P_key "(pystr option \<times> pyval) list"
  | P_colon "(pystr option \<times> pyval) list" pystr
  | P_value "(pystr option \<times> pyval) list" pystr
  | P_first_item "(pystr option \<times> pyval) list" pystr
  | P_item "(pystr option \<times> pyval) list" pystr "pystr list"
  | P_after_item "(pystr option \<times> pyval) list" pystr "pystr list"
  | P_after_value "(pystr option \<times> pyval) list"
  | P_end "(pystr option \<times> pyval) list"

fun parse :: "pstate \<Rightarrow> token list \<Rightarrow> (pystr option \<times> pyval) list option" where
  "parse P_start (T_lbrace # ts) = parse P_first_key ts"
| "parse P_first_key (T_rbrace # ts) = parse (P_end []) ts"
| "parse P_first_key (T_string k # ts) = parse (P_colon [] k) ts"
| "parse (P_key ps) (T_string k # ts) = parse (P_colon ps k) ts"
| "parse (P_colon ps k) (T_colon # ts) = parse (P_value ps k) ts"
| "parse (P_value ps k) (T_string v # ts) = parse (P_after_value (ps @ [(Some k, Str v)])) ts"
| "parse (P_value ps k) (T_null # ts) = parse (P_after_value (ps @ [(Some k, NoneVal)])) ts"
| "parse (P_value ps k) (T_lbrack # ts) = parse (P_first_item ps k) ts"
| "parse (P_first_item ps k) (T_rbrack # ts) = parse (P_after_value (ps @ [(Some k, StrList [])])) ts"
| "parse (P_first_item ps k) (T_string x # ts) = parse (P_after_item ps k [x]) ts"
| "parse (P_item ps k xs) (T_string x # ts) = parse (P_after_item ps k (xs @ [x])) ts"
| "parse (P_after_item ps k xs) (T_comma # ts) = parse (P_item ps k xs) ts"
| "parse (P_after_item ps k xs) (T_rbrack # ts) = parse (P_after_value (ps @ [(Some k, StrList xs)])) ts"
| "parse (P_after_value ps) (T_comma # ts) = parse (P_key ps) ts"
| "parse (P_after_value ps) (T_rbrace # ts) = parse (P_end ps) ts"
| "parse (P_end ps) [] = Some ps"
| "parse _ _ = None"

definition json_loads :: "string \<Rightarrow> exn + pydict" where
  "json_loads b =
     (case bytes_decode b of
        None \<Rightarrow> Inl UnicodeDecodeError
      | Some s \<Rightarrow>
          (case lex None s of
             None \<Rightarrow> Inl JSONDecodeError
           | Some ts \<Rightarrow>
               (case parse P_start ts of
                  None \<Rightarrow> Inl JSONDecodeError
                | Some ps \<Rightarrow> Inr (dict_from_pairs ps))))"

section \<open>The Redis connection\<close>

text \<open>
  The world of a run: the lists of the selected Redis database by key (a key is there
  as long as its list is not empty), the number of background saves requested, the
  records handed to the logger, and \<open>faults\<close>, the fate of the commands to come:
  each command sent takes the head of \<open>faults\<close> and fails with a RedisError when it
  is \<open>True\<close>; when \<open>faults\<close> is empty every command reaches the server. A key is
  written as the \<open>str\<close> that the client encodes.
\<close>

datatype log_record =
    Debug_server_info
  | Error_connecting exn
  | Debug_processing int
  | Debug_progress pyval int int
  | Error_storing "fmt_arg list"

record world =
  db :: "pystr \<rightharpoonup> blob list"
  bgsaves :: nat
  faults :: "bool list"
  log :: "log_record list"

definition send_command :: "world \<Rightarrow> (exn + unit) \<times> world" where
  "send_command w =
     (case faults w of
        [] \<Rightarrow> (Inr (), w)
      | f # fs \<Rightarrow> (if f then Inl RedisError else Inr (), w\<lparr>faults := fs\<rparr>))"

definition redis_info :: "world \<Rightarrow> (exn + unit) \<times> world" where
  "redis_info w = send_command w"

definition redis_flushdb :: "world \<Rightarrow> (exn + unit) \<times> world" where
  "redis_flushdb w =
     (case send_command w of
        (Inl e, w') \<Rightarrow> (Inl e, w')
      | (Inr _, w') \<Rightarrow> (Inr (), w'\<lparr>db := Map.empty\<rparr>))"

text \<open>
  \<open>rpush\<close>: the client refuses a key that is neither text nor a number with a
  DataError, before anything is sent. The server appends to the list of the key, which
  it creates when there is none.
\<close>

definition redis_rpush :: "pyval \<Rightarrow> blob \<Rightarrow> world \<Rightarrow> (exn + unit) \<times> world" where
  "redis_rpush name v w =
     (case name of
        Str k \<Rightarrow>
          (case send_command w of
             (Inl e, w') \<Rightarrow> (Inl e, w')
           | (Inr _, w') \<Rightarrow>
               (Inr (), w'\<lparr>db := (db w')(k \<mapsto> (case db w' k of None \<Rightarrow> [v] | Some vs \<Rightarrow> vs @ [v]))\<rparr>))
      | NoneVal \<Rightarrow> (Inl DataError, w)
      | StrList _ \<Rightarrow> (Inl DataError, w))"

text \<open>
  \<open>LRANGE key start stop\<close>: both ends are included, a negative index counts from the
  end of the list, and a key that is not there has the empty list. The command reads only.
\<close>

definition lrange_slice :: "'a list \<Rightarrow> int \<Rightarrow> int \<Rightarrow> 'a list" where
  "lrange_slice xs start stop =
     (let n = int (length xs);
          s = (if start < 0 then max 0 (n + start) else start);
          e = (if stop < 0 then n + stop else min stop (n - 1))
      in if e < s then [] else take (nat (e - s + 1)) (drop (nat s) xs))"

definition redis_lrange :: "pystr \<Rightarrow> int \<Rightarrow> int \<Rightarrow> world \<Rightarrow> (exn + blob list) \<times> world" where
  "redis_lrange k start stop w =
     (case send_command w of
        (Inl e, w') \<Rightarrow> (Inl e, w')
      | (Inr _, w') \<Rightarrow>
          (Inr (lrange_slice (case db w' k of None \<Rightarrow> [] | Some vs \<Rightarrow> vs) start stop), w'))"

definition redis_bgsave :: "world \<Rightarrow> (exn + unit) \<times> world" where
  "redis_bgsave w =
     (case send_command w of
        (Inl e, w') \<Rightarrow> (Inl e, w')
      | (Inr _, w') \<Rightarrow> (Inr (), w'\<lparr>bgsaves := Suc (bgsaves w')\<rparr>))"

section \<open>\<open>CSV2Redis\<close>\<close>

text \<open>
  \<open>__init__\<close>: \<open>redis.Redis(...)\<close> opens no connection; \<open>info\<close> is the first command
  sent. A RedisError is logged and answered by \<open>sys.exit(1)\<close>.
\<close>

definition init :: "world \<Rightarrow> (exn + unit) \<times> world" where
  "init w =
     (case redis_info w of
        (Inl e, w') \<Rightarrow> (Inl (SystemExit 1), w'\<lparr>log := log w' @ [Error_connecting e]\<rparr>)
      | (Inr _, w') \<Rightarrow> (Inr (), w'\<lparr>log := log w' @ [Debug_server_info]\<rparr>))"

text \<open>
  The body of the \<open>for\<close> loop of \<open>store_csv\<close>, for the row \<open>row\<close> read at \<open>line_num\<close>.
  The arguments of \<open>logger.debug\<close> are evaluated at every log level; the logger prints
  a debug record in verbose mode only. The elapsed process time, which the progress
  record also shows, is not modelled.
\<close>

definition loop_body ::
  "int \<Rightarrow> int \<Rightarrow> pystr list \<Rightarrow> int \<times> pydict \<Rightarrow> world \<Rightarrow> (exn + unit) \<times> world" where
  "loop_body n_records check_count fieldnames r w =
     (case r of (line_num, row) \<Rightarrow>
       (case list_getitem0 fieldnames of
          Inl e \<Rightarrow> (Inl e, w)
        | Inr key \<Rightarrow>
            (case py_mod line_num check_count of
               Inl e \<Rightarrow> (Inl e, w)
             | Inr m \<Rightarrow>
                 (case (if m = 0
                        then (case dict_getitem row (Some key) of
                                Inl e \<Rightarrow> Inl e
                              | Inr v \<Rightarrow> Inr (w\<lparr>log := log w @ [Debug_progress v line_num n_records]\<rparr>))
                        else Inr w) of
                    Inl e \<Rightarrow> (Inl e, w)
                  | Inr w1 \<Rightarrow>
                      (case str_encode (json_dumps row) of
                         Inl e \<Rightarrow> (Inl e, w1)
                       | Inr json_ordered_dict \<Rightarrow>
                           (case dict_getitem row (Some key) of
                              Inl e \<Rightarrow> (Inl e, w1)
                            | Inr name \<Rightarrow> redis_rpush name (lzma_compress json_ordered_dict) w1))))))"

text \<open>
  The loop stops at the first exception, which leaves the loop with \<open>reader.line_num\<close>
  as it stands then.
\<close>

fun for_rows ::
  "int \<Rightarrow> int \<Rightarrow> pystr list \<Rightarrow> (int \<times> pydict) list \<Rightarrow> world \<Rightarrow> ((int \<times> exn) + unit) \<times> world" where
  "for_rows n_records check_count fieldnames [] w = (Inr (), w)"
| "for_rows n_records check_count fieldnames (r # rs) w =
     (case loop_body n_records check_count fieldnames r w of
        (Inl e, w') \<Rightarrow> (Inl (fst r, e), w')
      | (Inr _, w') \<Rightarrow> for_rows n_records check_count fieldnames rs w')"

text \<open>
  The body of the \<open>try\<close> statement. The first row that \<open>csv.reader\<close> yields holds the
  field names; an empty file has no row, and the loop does not run.
\<close>

definition try_body :: "source \<Rightarrow> world \<Rightarrow> ((int \<times> exn) + unit) \<times> world" where
  "try_body f w =
     (let n_records = get_record_count f;
          w1 = w\<lparr>log := log w @ [Debug_processing n_records]\<rparr>;
          check_count = py_round (n_records div 20) 2
      in case csv_rows f of
           [] \<Rightarrow> (Inr (), w1)
         | header # rows \<Rightarrow>
             for_rows n_records check_count (snd header) (dictreader_rows (snd header) rows) w1)"

text \<open>
  \<open>store_csv\<close>: \<open>flushdb\<close>, then \<open>open\<close> (\<open>None\<close> is a file that cannot be opened),
  then the \<open>try\<close> statement, then \<open>bgsave\<close>. The handler formats its message with the
  fields \<open>{1}\<close> and \<open>{2}\<close> and the two arguments \<open>reader.line_num\<close> and \<open>e\<close>, and logs
  the message if there is one.
\<close>

definition store_csv :: "source option \<Rightarrow> world \<Rightarrow> (exn + unit) \<times> world" where
  "store_csv csv_file w =
     (case redis_flushdb w of
        (Inl e, w1) \<Rightarrow> (Inl e, w1)
      | (Inr _, w1) \<Rightarrow>
          (case csv_file of
             None \<Rightarrow> (Inl FileNotFoundError, w1)
           | Some f \<Rightarrow>
               (case try_body f w1 of
                  (Inr _, w2) \<Rightarrow> redis_bgsave w2
                | (Inl (line_num, e), w2) \<Rightarrow>
                    (case str_format [1, 2] [Arg_int line_num, Arg_exn e] of
                       Inl e' \<Rightarrow> (Inl e', w2)
                     | Inr msg \<Rightarrow> redis_bgsave (w2\<lparr>log := log w2 @ [Error_storing msg]\<rparr>)))))"

text \<open>\<open>get_records\<close>: one \<open>lrange\<close> over the whole list, then each blob is decoded.\<close>

definition decode_row :: "blob \<Rightarrow> exn + pydict" where
  "decode_row r = (case lzma_decompress r of Inl e \<Rightarrow> Inl e | Inr data \<Rightarrow> json_loads data)"

fun decode_rows :: "blob list \<Rightarrow> exn + pydict list" where
  "decode_rows [] = Inr []"
| "decode_rows (r # rs) =
     (case decode_row r of
        Inl e \<Rightarrow> Inl e
      | Inr x \<Rightarrow> (case decode_rows rs of Inl e \<Rightarrow> Inl e | Inr xs \<Rightarrow> Inr (x # xs)))"

definition get_records :: "pystr \<Rightarrow> world \<Rightarrow> (exn + pydict list) \<times> world" where
  "get_records key w =
     (case redis_lrange key 0 (- 1) w of
        (Inl e, w') \<Rightarrow> (Inl e, w')
      | (Inr compressed_rows, w') \<Rightarrow> (decode_rows compressed_rows, w'))"

text \<open>\<open>main\<close>, without the parsing of the command line and the printing of the records.\<close>

datatype action = Store "source option" | Get pystr

definition main :: "action \<Rightarrow> world \<Rightarrow> (exn + unit) \<times> world" where
  "main a w =
     (case init w of
        (Inl e, w1) \<Rightarrow> (Inl e, w1)
      | (Inr _, w1) \<Rightarrow>
          (case a of
             Store csv_file \<Rightarrow> store_csv csv_file w1
           | Get key \<Rightarrow>
               (case get_records key w1 of
                  (Inl e, w2) \<Rightarrow> (Inl e, w2)
                | (Inr records, w2) \<Rightarrow> (Inr (), w2))))"

section \<open>Sources and worlds used as examples\<close>

text \<open>
  \<open>scenario\<close> is the file of four lines
  \<^verbatim>\<open>id,name,amount / 1,alice,10 / 1,bob,20 / 2,carl,5\<close>.
  \<open>long_scenario\<close> is the same file followed by blank lines up to line 1020, and
  \<open>ragged_source\<close> is a file of 1020 lines whose third line, \<^verbatim>\<open>2,carl\<close>, has two
  cells under a header of three. \<open>empty_world\<close> has an empty database and a
  connection without faults.
\<close>

definition empty_world :: world where
  "empty_world = \<lparr>db = Map.empty, bgsaves = 0, faults = [], log = []\<rparr>"

definition scenario_header :: "pystr list" where
  "scenario_header = [py_str ''id'', py_str ''name'', py_str ''amount'']"

definition scenario_rows :: "csv_row list" where
  "scenario_rows =
     [(2, [py_str ''1'', py_str ''alice'', py_str ''10'']),
      (3, [py_str ''1'', py_str ''bob'', py_str ''20'']),
      (4, [py_str ''2'', py_str ''carl'', py_str ''5''])]"

definition scenario :: source where
  "scenario = \<lparr>newlines = 4, csv_rows = (1, scenario_header) # scenario_rows\<rparr>"

definition blank_lines :: "int \<Rightarrow> int \<Rightarrow> csv_row list" where
  "blank_lines a b = map (\<lambda>i. (i, [])) [a..b]"

definition long_scenario :: source where
  "long_scenario =
     \<lparr>newlines = 1020, csv_rows = (1, scenario_header) # scenario_rows @ blank_lines 5 1020\<rparr>"

definition ragged_source :: source where
  "ragged_source =
     \<lparr>newlines = 1020,
      csv_rows = (1, scenario_header) #
        [(2, [py_str ''1'', py_str ''alice'', py_str ''10'']),
         (3, [py_str ''2'', py_str ''carl''])] @ blank_lines 4 1020\<rparr>"

text \<open>The next command sent reaches the server.\<close>

definition next_command_ok :: "world \<Rightarrow> bool" where
  "next_command_ok w = (case faults w of [] \<Rightarrow> True | f # fs \<Rightarrow> f = False)"

text \<open>
  The blob that \<open>store_csv\<close> writes for a row, the list of a key after the pushes
  \<open>kvs\<close>, and the cells of the data rows of a source.
\<close>

definition row_blob :: "pydict \<Rightarrow> blob" where
  "row_blob row = lzma_compress (map char_of (json_dumps row))"

definition pushed :: "(pystr \<times> blob) list \<Rightarrow> pystr \<Rightarrow> blob list" where
  "pushed kvs k = map snd (filter (\<lambda>kv. fst kv = k) kvs)"

definition data_cells :: "source \<Rightarrow> pystr set" where
  "data_cells f = (\<Union>r \<in> set (tl (csv_rows f)). set (snd r))"

text \<open>
  Text made of Unicode scalar values: code points below 0x110000 that are not
  surrogates. This is what reading a file as UTF-8 yields.
\<close>

definition scalar_value :: "nat \<Rightarrow> bool" where
  "scalar_value c = (c < 0xD800 \<or> (0xDFFF < c \<and> c < 0x110000))"

definition valid_text :: "pystr \<Rightarrow> bool" where
  "valid_text s = list_all scalar_value s"

text \<open>
  \<open>old_world\<close> holds a list from an earlier run. \<open>other_source\<close> is a file of 1020
  lines with the header \<^verbatim>\<open>id,name\<close> and the one row \<^verbatim>\<open>3,dora\<close>. In
  \<open>glitch_world\<close> the third command sent fails.
\<close>

definition old_world :: world where
  "old_world = empty_world\<lparr>db := [py_str ''1'' \<mapsto> [Not_xz ''old'']]\<rparr>"

definition other_source :: source where
  "other_source =
     \<lparr>newlines = 1020,
      csv_rows = (1, [py_str ''id'', py_str ''name'']) #
        [(2, [py_str ''3'', py_str ''dora''])] @ blank_lines 3 1020\<rparr>"

definition glitch_world :: world where
  "glitch_world = empty_world\<lparr>faults := [False, False, True]\<rparr>"

text \<open>
  The pushes of a run in which no row raises: each row that is not blank pushes its
  blob to the list of its first cell. \<open>group\<close> is the list of a key, empty when the
  key is not there.
\<close>

definition row_pushes :: "pystr list \<Rightarrow> csv_row list \<Rightarrow> (pystr \<times> blob) list" where
  "row_pushes fieldnames rows =
     map (\<lambda>r. (hd (snd r), row_blob (dictreader_row fieldnames (snd r))))
       (filter (\<lambda>r. snd r \<noteq> []) rows)"

definition group :: "(pystr \<rightharpoonup> blob list) \<Rightarrow> pystr \<Rightarrow> blob list" where
  "group m k = (case m k of None \<Rightarrow> [] | Some vs \<Rightarrow> vs)"

text \<open>
  The world in which the loop of \<open>store_csv\<close> starts: the database is flushed and the
  number of records is logged.
\<close>

definition loop_start :: "source \<Rightarrow> world \<Rightarrow> world" where
  "loop_start f w =
     (let w1 = snd (redis_flushdb w)
      in w1\<lparr>log := log w1 @ [Debug_processing (get_record_count f)]\<rparr>)"

text \<open>
  A record of the spec: field names and string values, in the order of the header.
  \<open>record_dict\<close> is the \<open>dict\<close> that holds it. A row of the \<open>DictReader\<close> is valid
  for the codec when its keys are field names (no \<open>None\<close>) and all its text is valid.
\<close>

definition record_dict :: "(pystr \<times> pystr) list \<Rightarrow> pydict" where
  "record_dict r = map (\<lambda>kv. (Some (fst kv), Str (snd kv))) r"

fun valid_value :: "pyval \<Rightarrow> bool" where
  "valid_value (Str s) = valid_text s"
| "valid_value NoneVal = True"
| "valid_value (StrList xs) = list_all valid_text xs"

fun valid_item :: "pystr option \<times> pyval \<Rightarrow> bool" where
  "valid_item (Some k, v) = (valid_text k \<and> valid_value v)"
| "valid_item (None, v) = False"

text \<open>The tokens of the JSON text of a value, of a member and of an object.\<close>

definition emits :: "token list \<Rightarrow> token list option \<Rightarrow> token list option" where
  "emits ts r = (case r of None \<Rightarrow> None | Some us \<Rightarrow> Some (ts @ us))"

fun value_tokens :: "pyval \<Rightarrow> token list" where
  "value_tokens (Str s) = [T_string s]"
| "value_tokens NoneVal = [T_null]"
| "value_tokens (StrList xs) = [T_lbrack] @ join [T_comma] (map (\<lambda>x. [T_string x]) xs) @ [T_rbrack]"

definition member_tokens :: "pystr \<times> pyval \<Rightarrow> token list" where
  "member_tokens m = [T_string (fst m), T_colon] @ value_tokens (snd m)"

text \<open>The text of a key as \<open>json.dumps\<close> writes it, and the tokens of an object.\<close>

definition key_text :: "pystr option \<Rightarrow> pystr" where
  "key_text k = (case k of Some s \<Rightarrow> s | None \<Rightarrow> py_str ''null'')"

definition dict_tokens :: "pydict \<Rightarrow> token list" where
  "dict_tokens d =
     [T_lbrace] @ join [T_comma] (map (\<lambda>m. member_tokens (key_text (fst m), snd m)) d) @ [T_rbrace]"

text \<open>
  A record with an empty value and with a value that holds a comma, a quote, a line
  feed, a backslash and the non-ASCII characters U+00E9, U+4E2D and U+1F600.
\<close>

definition sample_record :: "(pystr \<times> pystr) list" where
  "sample_record =
     [(py_str ''id'', py_str ''1''),
      (py_str ''name'', [0x61, 0x2C, 0x22, 0x0A, 0x5C, 0xE9, 0x4E2D, 0x1F600]),
      (py_str ''amount'', [])]"

section \<open>Lemmas\<close>

subsection \<open>The connection\<close>

lemma send_command_ok:
  "next_command_ok w \<Longrightarrow> send_command w = (Inr (), w\<lparr>faults := tl (faults w)\<rparr>)"
  by (cases "faults w") (simp_all add: next_command_ok_def send_command_def)

lemma send_command_no_faults: "faults w = [] \<Longrightarrow> send_command w = (Inr (), w)"
  by (simp add: send_command_def)

lemma send_command_db: "db (snd (send_command w)) = db w"
  by (cases "faults w") (simp_all add: send_command_def)

subsection \<open>The JSON text of a row is ASCII\<close>

lemma hex_digit_ascii: "d < 16 \<Longrightarrow> hex_digit d < 0x80"
  by (simp add: hex_digit_def)

lemma hex4_ascii: "c \<in> set (hex4 n) \<Longrightarrow> c < 0x80"
  by (auto simp: hex4_def intro!: hex_digit_ascii)

lemma escape_ascii_ascii: "x \<in> set (escape_ascii c) \<Longrightarrow> x < 0x80"
  by (auto simp: escape_ascii_def Let_def split: if_splits dest: hex4_ascii)

lemma encode_basestring_ascii_ascii: "x \<in> set (encode_basestring_ascii s) \<Longrightarrow> x < 0x80"
  by (auto simp: encode_basestring_ascii_def dest: escape_ascii_ascii)

lemma set_join: "set (join sep xs) \<subseteq> set sep \<union> (\<Union>x \<in> set xs. set x)"
  by (induction sep xs rule: join.induct) auto

lemma json_value_ascii: "x \<in> set (json_value v) \<Longrightarrow> x < 0x80"
proof (cases v)
  case (StrList xs)
  assume "x \<in> set (json_value v)"
  then consider "x \<in> set (py_str ''['')" | "x \<in> set (py_str '']'')"
    | "x \<in> set (join (py_str '', '') (map encode_basestring_ascii xs))"
    using StrList by auto
  then show ?thesis
  proof cases
    case 3
    then have "x \<in> set (py_str '', '') \<or> (\<exists>y \<in> set xs. x \<in> set (encode_basestring_ascii y))"
      using set_join [of "py_str '', ''" "map encode_basestring_ascii xs"] by auto
    then show ?thesis by (auto simp: py_str_def dest: encode_basestring_ascii_ascii)
  qed (auto simp: py_str_def)
qed (auto simp: py_str_def dest: encode_basestring_ascii_ascii)

lemma json_key_ascii: "x \<in> set (json_key k) \<Longrightarrow> x < 0x80"
  by (cases k) (auto dest: encode_basestring_ascii_ascii)

lemma json_dumps_ascii: "x \<in> set (json_dumps d) \<Longrightarrow> x < 0x80"
proof -
  assume "x \<in> set (json_dumps d)"
  then consider "x \<in> set (py_str ''{'')" | "x \<in> set (py_str ''}'')"
    | "x \<in> set (join (py_str '', '') (map (\<lambda>(k, v). json_key k @ py_str '': '' @ json_value v) d))"
    by (auto simp: json_dumps_def)
  then show ?thesis
  proof cases
    case 3
    then have "x \<in> set (py_str '', '') \<or>
        (\<exists>kv \<in> set d. x \<in> set (json_key (fst kv) @ py_str '': '' @ json_value (snd kv)))"
      using set_join [of "py_str '', ''" "map (\<lambda>(k, v). json_key k @ py_str '': '' @ json_value v) d"]
      by (auto simp: case_prod_beta)
    then show ?thesis
      by (auto simp: py_str_def dest: json_key_ascii json_value_ascii)
  qed (auto simp: py_str_def)
qed

lemma str_encode_ascii:
  assumes "\<And>x. x \<in> set s \<Longrightarrow> x < 0x80"
  shows "str_encode s = Inr (map char_of s)"
proof -
  have a: "list_all (\<lambda>c. utf8 c \<noteq> None) s"
    using assms by (auto simp: list_all_iff)
  have b: "concat (map (\<lambda>c. the (utf8 c)) s) = map char_of s"
    using assms by (induction s) auto
  show ?thesis unfolding str_encode_def using a b by (simp del: utf8.simps)
qed

lemma str_encode_json_dumps: "str_encode (json_dumps d) = Inr (map char_of (json_dumps d))"
  by (rule str_encode_ascii) (rule json_dumps_ascii)

lemma bytes_decode_ascii:
  assumes "\<And>x. x \<in> set s \<Longrightarrow> x < 0x80"
  shows "bytes_decode (map char_of s) = Some s"
proof -
  have m: "x mod 256 = x" if "x \<in> set s" for x
    using assms [OF that] by simp
  have a: "list_all (\<lambda>c. of_char c < (0x80 :: nat)) (map char_of s)"
    using assms by (auto simp: list_all_iff m)
  have b: "map of_char (map char_of s :: string) = s"
    using m by (induction s) auto
  show ?thesis using a b by (simp add: bytes_decode_def)
qed

subsection \<open>Rows of the \<open>DictReader\<close>\<close>

lemma dict_getitem_setitem_same: "dict_getitem (dict_setitem d k v) k = Inr v"
  by (induction d) auto

lemma dict_getitem_setitem_other: "k' \<noteq> k \<Longrightarrow> dict_getitem (dict_setitem d k' v) k = dict_getitem d k"
  by (induction d) auto

lemma dict_getitem_foldl_other:
  "k \<notin> fst ` set ps \<Longrightarrow>
   dict_getitem (foldl (\<lambda>d (k, v). dict_setitem d k v) d ps) k = dict_getitem d k"
  by (induction ps arbitrary: d) (auto simp: dict_getitem_setitem_other)

lemma dict_getitem_foldl_pad:
  "k \<notin> Some ` set ks \<Longrightarrow>
   dict_getitem (foldl (\<lambda>d key. dict_setitem d (Some key) v) d ks) k = dict_getitem d k"
  by (induction ks arbitrary: d) (auto simp: dict_getitem_setitem_other)

lemma dictreader_row_first:
  assumes "key \<notin> set rest"
  shows "dict_getitem (dictreader_row (key # rest) (c # cells)) (Some key) = Inr (Str c)"
proof -
  let ?ps = "zip (map Some rest) (map Str cells)"
  have z: "Some key \<notin> fst ` set ?ps"
    using assms by (auto dest!: set_zip_leftD)
  have d: "dict_getitem (dict_from_pairs ((Some key, Str c) # ?ps)) (Some key) = Inr (Str c)"
    by (simp add: dict_from_pairs_def dict_getitem_foldl_other [OF z])
  have p: "Some key \<notin> Some ` set (drop n rest)" for n
    using assms by (auto dest: in_set_dropD)
  show ?thesis
    using d by (auto simp: dictreader_row_def Let_def dict_getitem_setitem_other
        dict_getitem_foldl_pad [OF p])
qed

lemma dict_getitem_mem: "dict_getitem d k = Inr v \<Longrightarrow> (k, v) \<in> set d"
  by (induction d) (auto split: if_splits)

lemma set_dict_setitem: "set (dict_setitem d k v) \<subseteq> insert (k, v) (set d)"
  by (induction d) (auto split: if_splits)

lemma set_dict_foldl:
  "set (foldl (\<lambda>d (k, v). dict_setitem d k v) d ps) \<subseteq> set d \<union> set ps"
proof (induction ps arbitrary: d)
  case (Cons p ps)
  obtain k v where p: "p = (k, v)" by (cases p)
  show ?case using Cons [of "dict_setitem d k v"] set_dict_setitem [of d k v]
    by (auto simp: p)
qed simp

lemma set_dict_foldl_pad:
  "(k, Str x) \<in> set (foldl (\<lambda>d key. dict_setitem d (Some key) NoneVal) d ks) \<Longrightarrow> (k, Str x) \<in> set d"
proof (induction ks arbitrary: d)
  case (Cons a ks)
  then have "(k, Str x) \<in> set (dict_setitem d (Some a) NoneVal)" by simp
  then show ?case using set_dict_setitem [of d "Some a" NoneVal] by auto
qed simp

lemma dictreader_row_cells:
  assumes "(k, Str x) \<in> set (dictreader_row fieldnames row)"
  shows "x \<in> set row"
proof -
  let ?d = "dict_from_pairs (zip (map Some fieldnames) (map Str row))"
  have "(k, Str x) \<in> set ?d"
    using assms set_dict_setitem [of ?d None "StrList (drop (length fieldnames) row)"]
    by (auto simp: dictreader_row_def Let_def split: if_splits dest: set_dict_foldl_pad)
  then have "(k, Str x) \<in> set (zip (map Some fieldnames) (map Str row))"
    using set_dict_foldl [of "[]" "zip (map Some fieldnames) (map Str row)"]
    by (auto simp: dict_from_pairs_def)
  then show ?thesis by (auto dest!: set_zip_rightD)
qed

subsection \<open>The loop of \<open>store_csv\<close>\<close>

lemma next_command_ok_log [simp]: "next_command_ok (w\<lparr>log := l\<rparr>) = next_command_ok w"
  by (simp add: next_command_ok_def)

lemma redis_rpush_raise:
  "redis_rpush name v w = (Inl e, w') \<Longrightarrow> db w' = db w \<and> bgsaves w' = bgsaves w \<and> log w' = log w"
  by (cases name; cases "faults w") (auto simp: redis_rpush_def send_command_def split: if_splits)

lemma redis_rpush_db:
  "redis_rpush name v w = (res, w') \<Longrightarrow>
   db w' = db w \<or> (\<exists>k vs. name = Str k \<and> db w' = (db w)(k \<mapsto> vs))"
  by (cases name; cases "faults w") (auto simp: redis_rpush_def send_command_def split: if_splits)

lemma loop_body_ok:
  assumes "cc \<noteq> 0" and "dict_getitem row (Some key) = Inr (Str k)" and "next_command_ok w"
  shows "\<exists>w'. loop_body n cc (key # rest) (ln, row) w = (Inr (), w') \<and>
    db w' = (db w)(k \<mapsto> (case db w k of None \<Rightarrow> [] | Some vs \<Rightarrow> vs) @ [row_blob row]) \<and>
    faults w' = tl (faults w) \<and> bgsaves w' = bgsaves w \<and>
    log w' = log w @ (if ln mod cc = 0 then [Debug_progress (Str k) ln n] else [])"
  using assms unfolding row_blob_def
  by (cases "db w k")
    (simp_all add: loop_body_def list_getitem0_def py_mod_def str_encode_json_dumps redis_rpush_def
      send_command_ok)

lemma loop_body_raise_db:
  assumes "loop_body n cc fn r w = (Inl e, w')"
  shows "db w' = db w"
proof -
  obtain ln row where r: "r = (ln, row)" by (cases r)
  show ?thesis
    using assms unfolding loop_body_def r
    by (auto split: sum.splits if_splits dest!: redis_rpush_raise)
qed

lemma loop_body_dom:
  assumes "loop_body n cc fn r w = (res, w')"
  shows "dom (db w') \<subseteq> dom (db w) \<union> {k. \<exists>key. (key, Str k) \<in> set (snd r)}"
proof -
  obtain ln row where r: "r = (ln, row)" by (cases r)
  show ?thesis
    using assms unfolding loop_body_def r
    by (auto split: sum.splits if_splits dest!: redis_rpush_db dict_getitem_mem)
qed

lemma for_rows_dom:
  "for_rows n cc fn rs w = (res, w') \<Longrightarrow>
   dom (db w') \<subseteq> dom (db w) \<union> {k. \<exists>r \<in> set rs. \<exists>key. (key, Str k) \<in> set (snd r)}"
proof (induction rs arbitrary: w)
  case Nil
  then show ?case by simp
next
  case (Cons r rs)
  obtain res1 w1 where b: "loop_body n cc fn r w = (res1, w1)" by (cases "loop_body n cc fn r w")
  note d = loop_body_dom [OF b]
  show ?case
  proof (cases res1)
    case (Inl e)
    then have "w' = w1" using Cons.prems b by simp
    then show ?thesis using d by auto
  next
    case (Inr u)
    then have "for_rows n cc fn rs w1 = (res, w')" using Cons.prems b by simp
    from Cons.IH [OF this] d show ?thesis by auto
  qed
qed

lemma redis_bgsave_db: "db (snd (redis_bgsave w)) = db w"
  by (cases "faults w") (simp_all add: redis_bgsave_def send_command_def)

lemma for_rows_append:
  "for_rows n cc fn (xs @ ys) w =
     (case for_rows n cc fn xs w of
        (Inl e, w') \<Rightarrow> (Inl e, w')
      | (Inr u, w') \<Rightarrow> for_rows n cc fn ys w')"
  by (induction xs arbitrary: w) (auto split: prod.splits sum.splits)

lemma dictreader_rows_blank:
  "dictreader_rows fn (rs @ blank_lines a b) = dictreader_rows fn rs"
  by (simp add: dictreader_rows_def blank_lines_def filter_empty_conv)

lemma store_csv_dom:
  assumes "next_command_ok w"
  shows "dom (db (snd (store_csv (Some f) w))) \<subseteq> data_cells f"
proof -
  let ?w1 = "w\<lparr>faults := tl (faults w), db := Map.empty\<rparr>"
  have fl: "redis_flushdb w = (Inr (), ?w1)"
    using assms by (simp add: redis_flushdb_def send_command_ok)
  obtain res w2 where t: "try_body f ?w1 = (res, w2)" by (cases "try_body f ?w1")
  have d2: "dom (db w2) \<subseteq> data_cells f"
  proof (cases "csv_rows f")
    case Nil
    then show ?thesis using t by (auto simp: try_body_def Let_def)
  next
    case (Cons header rows)
    let ?n = "get_record_count f"
    have "for_rows ?n (py_round (?n div 20) 2) (snd header) (dictreader_rows (snd header) rows)
            (?w1\<lparr>log := log ?w1 @ [Debug_processing ?n]\<rparr>) = (res, w2)"
      using t Cons by (simp add: try_body_def Let_def)
    from for_rows_dom [OF this]
    have "dom (db w2) \<subseteq> {k. \<exists>r \<in> set (dictreader_rows (snd header) rows). \<exists>key. (key, Str k) \<in> set (snd r)}"
      by simp
    also have "\<dots> \<subseteq> data_cells f"
    proof
      fix k
      assume "k \<in> {k. \<exists>r \<in> set (dictreader_rows (snd header) rows). \<exists>key. (key, Str k) \<in> set (snd r)}"
      then obtain r key where r: "r \<in> set (dictreader_rows (snd header) rows)"
        and k: "(key, Str k) \<in> set (snd r)" by blast
      from r obtain ln row where row: "(ln, row) \<in> set rows"
        and "r = (ln, dictreader_row (snd header) row)"
        by (auto simp: dictreader_rows_def)
      with k have "k \<in> set row" by (auto dest: dictreader_row_cells)
      with row show "k \<in> data_cells f"
        using Cons by (auto simp: data_cells_def intro!: bexI [of _ "(ln, row)"])
    qed
    finally show ?thesis .
  qed
  have "db (snd (store_csv (Some f) w)) = db w2"
    using fl t
    by (auto simp: store_csv_def redis_bgsave_db split: sum.splits prod.splits)
  then show ?thesis using d2 by simp
qed

lemma dictreader_rows_Cons:
  "dictreader_rows fn (r # rows) =
     (if snd r = [] then dictreader_rows fn rows
      else (fst r, dictreader_row fn (snd r)) # dictreader_rows fn rows)"
  by (cases r) (simp add: dictreader_rows_def)

lemma row_pushes_Cons:
  "row_pushes fn (r # rows) =
     (if snd r = [] then row_pushes fn rows
      else (hd (snd r), row_blob (dictreader_row fn (snd r))) # row_pushes fn rows)"
  by (simp add: row_pushes_def)

lemma row_pushes_blank: "row_pushes fn (rs @ blank_lines a b) = row_pushes fn rs"
  by (simp add: row_pushes_def blank_lines_def filter_empty_conv)

lemma row_pushes_blank_lines: "row_pushes fn (blank_lines a b) = []"
  by (simp add: row_pushes_def blank_lines_def filter_empty_conv)

lemma dictreader_rows_blank_lines: "dictreader_rows fn (blank_lines a b) = []"
  by (simp add: dictreader_rows_def blank_lines_def filter_empty_conv)

lemma pushed_Cons: "pushed (kv # kvs) k = (if fst kv = k then snd kv # pushed kvs k else pushed kvs k)"
  by (simp add: pushed_def)

lemma pushed_Nil: "pushed [] k = []"
  by (simp add: pushed_def)

lemma for_rows_ok:
  assumes "cc \<noteq> 0" and "key \<notin> set rest" and "faults w = []"
  shows "\<exists>w'. for_rows n cc (key # rest) (dictreader_rows (key # rest) rows) w = (Inr (), w') \<and>
    faults w' = [] \<and> bgsaves w' = bgsaves w \<and>
    (\<forall>k. group (db w') k = group (db w) k @ pushed (row_pushes (key # rest) rows) k \<and>
         (db w' k = None) = (db w k = None \<and> pushed (row_pushes (key # rest) rows) k = []))"
  using assms(3)
proof (induction rows arbitrary: w)
  case Nil
  then show ?case by (simp add: dictreader_rows_def row_pushes_def pushed_def)
next
  case (Cons r rows)
  show ?case
  proof (cases "snd r")
    case Nil
    then show ?thesis using Cons.IH [OF Cons.prems]
      by (simp add: dictreader_rows_Cons row_pushes_Cons)
  next
    case (Cons c cells)
    let ?row = "dictreader_row (key # rest) (snd r)"
    have g: "dict_getitem ?row (Some key) = Inr (Str c)"
      using dictreader_row_first [OF assms(2)] Cons by simp
    have ok: "next_command_ok w" using Cons.prems by (simp add: next_command_ok_def)
    from loop_body_ok [OF assms(1) g ok, of n rest "fst r"] Cons.prems
    obtain w1 where b: "loop_body n cc (key # rest) (fst r, ?row) w = (Inr (), w1)"
      and d1: "db w1 = (db w)(c \<mapsto> (case db w c of None \<Rightarrow> [] | Some vs \<Rightarrow> vs) @ [row_blob ?row])"
      and f1: "faults w1 = []" and s1: "bgsaves w1 = bgsaves w"
      by auto
    from Cons.IH [OF f1] obtain w' where
      r: "for_rows n cc (key # rest) (dictreader_rows (key # rest) rows) w1 = (Inr (), w')"
      and f': "faults w' = []" and s': "bgsaves w' = bgsaves w1"
      and g': "\<And>k. group (db w') k = group (db w1) k @ pushed (row_pushes (key # rest) rows) k"
      and n': "\<And>k. (db w' k = None) = (db w1 k = None \<and> pushed (row_pushes (key # rest) rows) k = [])"
      by blast
    have "for_rows n cc (key # rest) (dictreader_rows (key # rest) (r # rows)) w = (Inr (), w')"
      using b r Cons by (simp add: dictreader_rows_Cons)
    moreover have "group (db w') k = group (db w) k @ pushed (row_pushes (key # rest) (r # rows)) k" for k
      using g' [of k] Cons by (simp add: d1 row_pushes_Cons pushed_Cons group_def)
    moreover have "(db w' k = None) = (db w k = None \<and> pushed (row_pushes (key # rest) (r # rows)) k = [])" for k
      using n' [of k] Cons by (simp add: d1 row_pushes_Cons pushed_Cons)
    ultimately show ?thesis using f' s' s1 by auto
  qed
qed

lemma store_csv_no_raise:
  assumes "faults w = []" and "csv_rows f = (l, key # rest) # rows" and "key \<notin> set rest"
    and "py_round (newlines f div 20) 2 \<noteq> 0"
  shows "fst (store_csv (Some f) w) = Inr () \<and>
         faults (snd (store_csv (Some f) w)) = [] \<and>
         bgsaves (snd (store_csv (Some f) w)) = Suc (bgsaves w) \<and>
         db (snd (store_csv (Some f) w)) k =
           (case pushed (row_pushes (key # rest) rows) k of [] \<Rightarrow> None | b # bs \<Rightarrow> Some (b # bs))"
proof -
  let ?n = "newlines f"
  let ?w1 = "w\<lparr>db := Map.empty\<rparr>"
  let ?w2 = "?w1\<lparr>log := log ?w1 @ [Debug_processing ?n]\<rparr>"
  have fl: "redis_flushdb w = (Inr (), ?w1)"
    using assms(1) by (simp add: redis_flushdb_def send_command_no_faults)
  have "faults ?w2 = []" using assms(1) by simp
  from for_rows_ok [OF assms(4) assms(3) this, of ?n rows]
  obtain w3 where r: "for_rows ?n (py_round (?n div 20) 2) (key # rest) (dictreader_rows (key # rest) rows) ?w2 = (Inr (), w3)"
    and f3: "faults w3 = []" and s3: "bgsaves w3 = bgsaves w"
    and g3: "\<And>k. group (db w3) k = pushed (row_pushes (key # rest) rows) k"
    and n3: "\<And>k. (db w3 k = None) = (pushed (row_pushes (key # rest) rows) k = [])"
    by (auto simp: group_def)
  have t: "try_body f ?w1 = (Inr (), w3)"
    using r assms(2) by (simp add: try_body_def get_record_count_def Let_def)
  have st: "store_csv (Some f) w = (Inr (), w3\<lparr>bgsaves := Suc (bgsaves w3)\<rparr>)"
    using fl t f3 by (simp add: store_csv_def redis_bgsave_def send_command_no_faults)
  have "db w3 k = (case pushed (row_pushes (key # rest) rows) k of [] \<Rightarrow> None | b # bs \<Rightarrow> Some (b # bs))"
    using g3 [of k] n3 [of k] by (cases "db w3 k") (auto simp: group_def split: list.splits)
  then show ?thesis using st f3 s3 by simp
qed

lemma check_count_1020: "py_round (1020 div 20) 2 = 100"
  by (simp add: py_round_def Let_def)

lemma long_scenario_run:
  "fst (store_csv (Some long_scenario) empty_world) = Inr () \<and>
   faults (snd (store_csv (Some long_scenario) empty_world)) = [] \<and>
   bgsaves (snd (store_csv (Some long_scenario) empty_world)) = 1 \<and>
   db (snd (store_csv (Some long_scenario) empty_world)) (py_str ''1'') =
     Some [row_blob (dictreader_row scenario_header [py_str ''1'', py_str ''alice'', py_str ''10'']),
           row_blob (dictreader_row scenario_header [py_str ''1'', py_str ''bob'', py_str ''20''])]"
proof -
  have a: "faults empty_world = []" by (simp add: empty_world_def)
  have b: "csv_rows long_scenario =
      (1, py_str ''id'' # [py_str ''name'', py_str ''amount'']) # (scenario_rows @ blank_lines 5 1020)"
    by (simp add: long_scenario_def scenario_header_def)
  have c: "py_str ''id'' \<notin> set [py_str ''name'', py_str ''amount'']"
    by (simp add: py_str_def)
  have d: "py_round (newlines long_scenario div 20) 2 \<noteq> 0"
    by (simp add: long_scenario_def py_round_def Let_def)
  show ?thesis
    using store_csv_no_raise [OF a b c d, of "py_str ''1''"]
    by (simp add: scenario_rows_def row_pushes_Cons row_pushes_blank_lines pushed_Cons pushed_Nil
        py_str_def scenario_header_def empty_world_def)
qed

subsection \<open>Evaluation of runs\<close>

lemma lrange_slice_all: "lrange_slice xs 0 (- 1) = xs"
  by (cases xs) (simp_all add: lrange_slice_def Let_def)

lemma blank_lines_cells: "(\<Union>r \<in> set (blank_lines a b). set (snd r)) = {}"
  by (auto simp: blank_lines_def)

lemma check_count_small:
  assumes "0 \<le> n" and "n < 1020"
  shows "py_round (n div 20) 2 = 0"
proof -
  have "0 \<le> n div 20" "n div 20 \<le> 50" using assms by auto
  then show ?thesis by (auto simp: py_round_def Let_def)
qed

lemmas run_simps =
  store_csv_def redis_flushdb_def redis_bgsave_def send_command_def try_body_def
  get_record_count_def py_round_def Let_def dictreader_rows_Cons dictreader_rows_blank_lines
  dictreader_rows_def [of _ "[]"]
  loop_body_def list_getitem0_def py_mod_def str_encode_json_dumps dictreader_row_first
  redis_rpush_def str_format_def row_blob_def

lemmas example_simps =
  empty_world_def glitch_world_def old_world_def scenario_def long_scenario_def ragged_source_def
  other_source_def scenario_rows_def scenario_header_def py_str_def

section \<open>The claims\<close>

subsection \<open>The store and the query\<close>

text \<open>
  Claim C10. \<open>get_records\<close> reads only: whatever the key, whether the \<open>lrange\<close>
  reaches the server or fails, and whether the blobs decode or not, the lists of the
  database, the number of saves requested and the log are after the call what they were
  before it.
\<close>

theorem get_records_read_only:
  "db (snd (get_records key w)) = db w \<and>
   bgsaves (snd (get_records key w)) = bgsaves w \<and>
   log (snd (get_records key w)) = log w"
  by (cases "faults w") (simp_all add: get_records_def redis_lrange_def send_command_def)

text \<open>
  Claim C9. \<open>store_csv\<close> flushes the database before it opens the source: when the
  flush reaches the server and the source cannot be opened, the call raises, no save is
  requested, and the database is empty, whatever it held before.
\<close>

theorem store_csv_clears_before_open:
  assumes "next_command_ok w"
  shows "fst (store_csv None w) = Inl FileNotFoundError \<and>
         db (snd (store_csv None w)) = Map.empty \<and>
         bgsaves (snd (store_csv None w)) = bgsaves w"
  using assms by (simp add: store_csv_def redis_flushdb_def send_command_ok)

theorem store_csv_clears_before_open_witness:
  "next_command_ok old_world \<and>
   db old_world (py_str ''1'') = Some [Not_xz ''old''] \<and>
   fst (store_csv None old_world) = Inl FileNotFoundError \<and>
   db (snd (store_csv None old_world)) = Map.empty"
proof -
  have h: "next_command_ok old_world"
    by (simp add: next_command_ok_def old_world_def empty_world_def)
  show ?thesis
    using h store_csv_clears_before_open [OF h] by (simp add: old_world_def)
qed

text \<open>
  Claim C6. The constructor sends a command (\<open>info\<close>) to the server. When that
  command fails, the failure is logged and the process exits with status 1; \<open>main\<close>
  ends there, so that neither \<open>store_csv\<close> nor \<open>get_records\<close> runs and no row is read.
\<close>

theorem init_fails_fast:
  assumes "faults w = True # fs"
  shows "init w = (Inl (SystemExit 1), w\<lparr>faults := fs, log := log w @ [Error_connecting RedisError]\<rparr>) \<and>
         main a w = init w"
  using assms by (simp add: init_def main_def redis_info_def send_command_def)

theorem init_fails_fast_witness:
  "fst (main (Store (Some scenario)) (empty_world\<lparr>faults := [True]\<rparr>)) = Inl (SystemExit 1) \<and>
   snd (main (Store (Some scenario)) (empty_world\<lparr>faults := [True]\<rparr>)) =
     empty_world\<lparr>log := [Error_connecting RedisError]\<rparr>"
proof -
  have h: "faults (empty_world\<lparr>faults := [True]\<rparr>) = True # []" by simp
  show ?thesis
    using init_fails_fast [OF h, of "Store (Some scenario)"] by (simp add: empty_world_def)
qed

text \<open>
  Claim C3, at the scenario of the claim. The file has four lines, so that the
  interval of the progress report, \<open>round(4 // 20, -2)\<close>, is 0; the first row raises
  ZeroDivisionError in \<open>line_num % check_count\<close>, the handler raises IndexError in
  \<open>format\<close>, and \<open>store_csv\<close> ends with that exception. Nothing is stored:
  \<open>get_records\<close> returns the empty list for the key 1 and for the key 2.
\<close>

theorem scenario_is_not_stored:
  "store_csv (Some scenario) empty_world = (Inl IndexError, empty_world\<lparr>log := [Debug_processing 4]\<rparr>) \<and>
   fst (get_records (py_str ''1'') (snd (store_csv (Some scenario) empty_world))) = Inr [] \<and>
   fst (get_records (py_str ''2'') (snd (store_csv (Some scenario) empty_world))) = Inr []"
proof -
  have s: "store_csv (Some scenario) empty_world = (Inl IndexError, empty_world\<lparr>log := [Debug_processing 4]\<rparr>)"
    by (simp add: run_simps example_simps)
  show ?thesis
    unfolding s
    by (simp add: get_records_def redis_lrange_def send_command_def lrange_slice_all empty_world_def)
qed

text \<open>
  Claim C5, at the scenario file. The run starts to process rows, the first row raises,
  and \<open>store_csv\<close> ends with the IndexError of the handler before it reaches \<open>bgsave\<close>:
  no save is requested.
\<close>

theorem scenario_run_requests_no_save:
  "fst (store_csv (Some scenario) empty_world) = Inl IndexError \<and>
   bgsaves (snd (store_csv (Some scenario) empty_world)) = 0"
  by (simp add: run_simps example_simps)

text \<open>
  Claim C8, at the scenario file. The interval of the progress report is 0 for this
  file, and the test for the report raises ZeroDivisionError at the first row, the one
  read at line 2 (\<open>check_count_small\<close>: the interval is 0 for every file of fewer than
  1020 lines).
\<close>

theorem scenario_progress_test_raises:
  "py_round (get_record_count scenario div 20) 2 = 0 \<and>
   fst (try_body scenario empty_world) = Inl (2, ZeroDivisionError)"
  by (simp add: run_simps example_simps)

text \<open>
  Claim C4. After \<open>store_csv\<close> of a source \<open>a\<close> (which may have failed, or be no
  file at all) and then of a source \<open>b\<close>, when the flush of the second call reaches the
  server: every key of the database is a cell of a data row of \<open>b\<close>, and the second
  call does what it would have done on an empty database.
\<close>

theorem store_csv_replaces_namespace:
  assumes "next_command_ok (snd (store_csv a w))"
  shows "dom (db (snd (store_csv (Some b) (snd (store_csv a w))))) \<subseteq> data_cells b \<and>
         store_csv (Some b) (snd (store_csv a w)) =
           store_csv (Some b) ((snd (store_csv a w))\<lparr>db := Map.empty\<rparr>)"
proof -
  let ?w = "snd (store_csv a w)"
  have ok: "next_command_ok (?w\<lparr>db := Map.empty\<rparr>)"
    using assms by (simp add: next_command_ok_def)
  have "redis_flushdb ?w = redis_flushdb (?w\<lparr>db := Map.empty\<rparr>)"
    by (simp add: redis_flushdb_def send_command_ok [OF assms] send_command_ok [OF ok])
  then have "store_csv (Some b) ?w = store_csv (Some b) (?w\<lparr>db := Map.empty\<rparr>)"
    by (simp add: store_csv_def)
  then show ?thesis using store_csv_dom [OF assms, of b] by simp
qed

theorem store_csv_replaces_namespace_witness:
  "py_str ''1'' \<in> dom (db (snd (store_csv (Some long_scenario) empty_world))) \<and>
   py_str ''1'' \<notin> dom (db (snd (store_csv (Some other_source) (snd (store_csv (Some long_scenario) empty_world)))))"
proof -
  have h: "next_command_ok (snd (store_csv (Some long_scenario) empty_world))"
    using long_scenario_run by (simp add: next_command_ok_def)
  have c: "py_str ''1'' \<notin> data_cells other_source"
    by (simp add: data_cells_def other_source_def blank_lines_cells py_str_def)
  have d: "py_str ''1'' \<in> dom (db (snd (store_csv (Some long_scenario) empty_world)))"
    using long_scenario_run by (auto simp: dom_def)
  have "dom (db (snd (store_csv (Some other_source) (snd (store_csv (Some long_scenario) empty_world)))))
      \<subseteq> data_cells other_source"
    using store_csv_replaces_namespace [OF h, of other_source] by (rule conjunct1)
  then show ?thesis using c d by blast
qed

text \<open>
  Claim C2. As stated the claim fails. Counterexample: the scenario file followed by
  blank lines up to line 1020, on a connection whose third command (the \<open>rpush\<close> of the
  row at line 3) fails. The row at line 3 raises RedisError; the call ends with
  IndexError; the log holds the record count only; the row at line 4, with the key 2,
  is not stored, although the connection has no further fault.
\<close>

theorem later_rows_are_dropped_counterexample:
  "fst (try_body long_scenario (snd (redis_flushdb glitch_world))) = Inl (3, RedisError) \<and>
   fst (store_csv (Some long_scenario) glitch_world) = Inl IndexError \<and>
   log (snd (store_csv (Some long_scenario) glitch_world)) = [Debug_processing 1020] \<and>
   db (snd (store_csv (Some long_scenario) glitch_world)) (py_str ''2'') = None \<and>
   faults (snd (store_csv (Some long_scenario) glitch_world)) = []"
  by (simp add: run_simps example_simps)

text \<open>
  Claim C2, amended. The first row whose processing raises ends the loop: when the rows
  \<open>before\<close> are processed without an exception and the next row \<open>r\<close> raises, the
  database after \<open>store_csv\<close> is the database as the rows \<open>before\<close> left it. The
  rows before \<open>r\<close> stay stored; \<open>r\<close> and the rows after it are not stored.
\<close>

theorem store_csv_stops_at_first_raise:
  assumes "next_command_ok w"
    and "csv_rows f = header # rows"
    and "dictreader_rows (snd header) rows = before @ r # after"
    and "for_rows (newlines f) (py_round (newlines f div 20) 2) (snd header) before (loop_start f w)
           = (Inr (), w2)"
    and "fst (loop_body (newlines f) (py_round (newlines f div 20) 2) (snd header) r w2) = Inl e"
  shows "db (snd (store_csv (Some f) w)) = db w2"
proof -
  let ?n = "newlines f" and ?cc = "py_round (newlines f div 20) 2"
  obtain w1 where fl: "redis_flushdb w = (Inr (), w1)"
    using assms(1) by (simp add: redis_flushdb_def send_command_ok)
  have ls: "loop_start f w = w1\<lparr>log := log w1 @ [Debug_processing ?n]\<rparr>"
    using fl by (simp add: loop_start_def get_record_count_def Let_def)
  obtain w3 where b: "loop_body ?n ?cc (snd header) r w2 = (Inl e, w3)"
    using assms(5) by (cases "loop_body ?n ?cc (snd header) r w2") auto
  have "for_rows ?n ?cc (snd header) (before @ r # after) (loop_start f w) = (Inl (fst r, e), w3)"
    using assms(4) b by (simp add: for_rows_append)
  then have t: "try_body f w1 = (Inl (fst r, e), w3)"
    using assms(2,3) ls by (simp add: try_body_def get_record_count_def Let_def)
  have "db (snd (store_csv (Some f) w)) = db w3"
    using fl t by (auto simp: store_csv_def redis_bgsave_db split: sum.splits)
  then show ?thesis using loop_body_raise_db [OF b] by simp
qed


text \<open>
  On the input of the counterexample: the row at line 2 is stored, the row at line 3
  raises, and the database holds the row at line 2 only.
\<close>

theorem store_csv_stops_at_first_raise_witness:
  "db (snd (store_csv (Some long_scenario) glitch_world)) =
     [py_str ''1'' \<mapsto> [row_blob (dictreader_row scenario_header [py_str ''1'', py_str ''alice'', py_str ''10''])]]"
proof -
  let ?before = "[(2, dictreader_row scenario_header [py_str ''1'', py_str ''alice'', py_str ''10''])]"
  let ?r = "(3, dictreader_row scenario_header [py_str ''1'', py_str ''bob'', py_str ''20''])"
  let ?after = "[(4, dictreader_row scenario_header [py_str ''2'', py_str ''carl'', py_str ''5''])]"
  let ?cc = "py_round (newlines long_scenario div 20) 2"
  let ?run = "for_rows (newlines long_scenario) ?cc (snd (1 :: int, scenario_header)) ?before
                (loop_start long_scenario glitch_world)"
  have h1: "next_command_ok glitch_world"
    by (simp add: next_command_ok_def glitch_world_def empty_world_def)
  have h2: "csv_rows long_scenario = (1 :: int, scenario_header) # (scenario_rows @ blank_lines 5 1020)"
    by (simp add: long_scenario_def)
  have h3: "dictreader_rows (snd (1 :: int, scenario_header)) (scenario_rows @ blank_lines 5 1020)
      = ?before @ ?r # ?after"
    by (simp add: scenario_rows_def dictreader_rows_Cons dictreader_rows_blank_lines)
  have "fst ?run = Inr ()"
    by (simp add: loop_start_def run_simps example_simps)
  then have h4: "?run = (Inr (), snd ?run)"
    by (simp add: prod_eq_iff)
  have d: "db (snd ?run) =
      [py_str ''1'' \<mapsto> [row_blob (dictreader_row scenario_header [py_str ''1'', py_str ''alice'', py_str ''10''])]]"
    by (simp add: loop_start_def run_simps example_simps)
  have h5: "fst (loop_body (newlines long_scenario) ?cc (snd (1 :: int, scenario_header)) ?r (snd ?run))
      = Inl RedisError"
    by (simp add: loop_start_def run_simps example_simps)
  show ?thesis
    using store_csv_stops_at_first_raise [OF h1 h2 h3 h4 h5] d by simp
qed

text \<open>
  Claim C7. As stated the claim fails. Counterexample: in \<open>ragged_source\<close> the row
  \<^verbatim>\<open>2,carl\<close> has two values under a header of three. The run raises nothing, and the
  key 2, which no other row has, has a list: the blob of the row with \<open>None\<close> for the
  missing value.
\<close>

lemma ragged_row_as_read:
  "dictreader_row scenario_header [py_str ''2'', py_str ''carl''] =
     [(Some (py_str ''id''), Str (py_str ''2'')), (Some (py_str ''name''), Str (py_str ''carl'')),
      (Some (py_str ''amount''), NoneVal)]"
  by (simp add: dictreader_row_def dict_from_pairs_def Let_def scenario_header_def py_str_def)

lemma ragged_source_facts:
  "faults empty_world = []"
  "csv_rows ragged_source = (1, py_str ''id'' # [py_str ''name'', py_str ''amount'']) #
     ([(2, [py_str ''1'', py_str ''alice'', py_str ''10'']), (3, [py_str ''2'', py_str ''carl''])]
       @ blank_lines 4 1020)"
  "py_str ''id'' \<notin> set [py_str ''name'', py_str ''amount'']"
  "py_round (newlines ragged_source div 20) 2 \<noteq> 0"
  by (simp_all add: ragged_source_def scenario_header_def empty_world_def py_str_def py_round_def Let_def)

theorem ragged_row_is_stored_counterexample:
  "length [py_str ''2'', py_str ''carl''] \<noteq> length scenario_header \<and>
   fst (store_csv (Some ragged_source) empty_world) = Inr () \<and>
   db (snd (store_csv (Some ragged_source) empty_world)) (py_str ''2'') =
     Some [row_blob [(Some (py_str ''id''), Str (py_str ''2'')), (Some (py_str ''name''), Str (py_str ''carl'')),
                     (Some (py_str ''amount''), NoneVal)]]"
  using store_csv_no_raise [OF ragged_source_facts, of "py_str ''2''"]
  by (simp add: row_pushes_Cons row_pushes_blank_lines pushed_Cons pushed_Nil
      ragged_row_as_read [unfolded scenario_header_def] scenario_header_def)
    (simp add: py_str_def)

text \<open>
  Claim C7, amended. In a run that raises nothing (a connection without faults, a
  header whose first field name is not repeated, and a progress interval that is not 0),
  a row whose number of values differs from the header's is ingested like every other
  row: the list of a key holds, in the order of the source, the blobs of all rows that
  are not blank and have that key as their first cell, each row as \<open>DictReader\<close> reads
  it, and a key without such a row has no list.
\<close>

theorem store_csv_ingests_every_row:
  assumes "faults w = []" and "csv_rows f = (l, key # rest) # rows" and "key \<notin> set rest"
    and "py_round (newlines f div 20) 2 \<noteq> 0"
  shows "fst (store_csv (Some f) w) = Inr () \<and>
         db (snd (store_csv (Some f) w)) k =
           (case pushed (row_pushes (key # rest) rows) k of [] \<Rightarrow> None | b # bs \<Rightarrow> Some (b # bs))"
  using store_csv_no_raise [OF assms, of k] by simp

theorem store_csv_ingests_every_row_witness:
  "fst (store_csv (Some ragged_source) empty_world) = Inr () \<and>
   db (snd (store_csv (Some ragged_source) empty_world)) (py_str ''1'') =
     Some [row_blob (dictreader_row scenario_header [py_str ''1'', py_str ''alice'', py_str ''10''])] \<and>
   db (snd (store_csv (Some ragged_source) empty_world)) (py_str ''2'') =
     Some [row_blob (dictreader_row scenario_header [py_str ''2'', py_str ''carl''])] \<and>
   db (snd (store_csv (Some ragged_source) empty_world)) (py_str ''3'') = None"
  using store_csv_ingests_every_row [OF ragged_source_facts, of "py_str ''1''"]
    store_csv_ingests_every_row [OF ragged_source_facts, of "py_str ''2''"]
    store_csv_ingests_every_row [OF ragged_source_facts, of "py_str ''3''"]
  by (simp add: row_pushes_Cons row_pushes_blank_lines pushed_Cons pushed_Nil scenario_header_def)
    (simp add: py_str_def)

subsection \<open>The codec\<close>

text \<open>The lexer reads what \<open>json.dumps\<close> writes.\<close>

declare lex.simps [simp del]

lemma hex_value_digit: "d < 16 \<Longrightarrow> hex_value (hex_digit d) = Some d"
  by (simp add: hex_value_def hex_digit_def)

lemma hex4_value:
  assumes "n < (0x10000 :: nat)"
  shows "((n div 4096 mod 16 * 16 + n div 256 mod 16) * 16 + n div 16 mod 16) * 16 + n mod 16 = n"
proof -
  define a b c d e f where "a = n div 4096" and "b = n div 256 mod 16" and "c = n div 16 mod 16"
    and "d = n mod 16" and "e = n div 256" and "f = n div 16"
  have "n div 4096 < 16"
    using less_mult_imp_div_less [of n 16 4096] assms by simp
  then have top: "n div 4096 mod 16 = a" by (simp add: a_def)
  have "e div 16 = a"
    using div_mult2_eq [of n 256 16] by (simp add: a_def e_def)
  then have h1: "e = 16 * a + b"
    using div_mult_mod_eq [of e 16] by (simp add: b_def e_def)
  have "f div 16 = e"
    using div_mult2_eq [of n 16 16] by (simp add: e_def f_def)
  then have h2: "f = 16 * e + c"
    using div_mult_mod_eq [of f 16] by (simp add: c_def f_def)
  have h3: "n = 16 * f + d"
    using div_mult_mod_eq [of n 16] by (simp add: d_def f_def)
  have "((a * 16 + b) * 16 + c) * 16 + d = n"
    using h1 h2 h3 by simp
  then show ?thesis
    unfolding top by (simp only: b_def c_def d_def)
qed

lemma decode_hex4:
  assumes "n < 0x10000"
  shows "decode_uXXXX (hex4 n) = Some n"
proof -
  have "decode_uXXXX (hex4 n) =
      Some (((n div 4096 mod 16 * 16 + n div 256 mod 16) * 16 + n div 16 mod 16) * 16 + n mod 16)"
    by (simp add: decode_uXXXX_def hex4_def hex_value_digit)
  then show ?thesis by (simp only: hex4_value [OF assms])
qed

lemma hex4_take: "take 4 (hex4 n @ s) = hex4 n"
  by (simp add: hex4_def)

lemma hex4_drop: "drop 4 (hex4 n @ s) = s"
  by (simp add: hex4_def)

lemma hex4_length: "length (hex4 n) = 4"
  by (simp add: hex4_def)

lemma lex_open: "lex None (0x22 # s) = lex (Some []) s"
  by (simp add: lex.simps)

lemma lex_close: "lex (Some acc) (0x22 # s) = emit (T_string acc) (lex None s)"
  by (simp add: lex.simps)

lemma lex_plain:
  "0x20 \<le> c \<Longrightarrow> c \<noteq> 0x22 \<Longrightarrow> c \<noteq> 0x5C \<Longrightarrow> lex (Some acc) (c # s) = lex (Some (acc @ [c])) s"
  by (simp add: lex.simps)

lemma lex_short:
  "esc \<noteq> 0x75 \<Longrightarrow> backslash esc = Some ch \<Longrightarrow>
   lex (Some acc) (0x5C # esc # s) = lex (Some (acc @ [ch])) s"
  by (simp add: lex.simps)

lemma lex_u:
  "decode_uXXXX (take 4 s1) = Some uni \<Longrightarrow> uni < 0xD800 \<or> 0xDBFF < uni \<Longrightarrow>
   lex (Some acc) (0x5C # 0x75 # s1) = lex (Some (acc @ [uni])) (drop 4 s1)"
  by (auto simp add: lex.simps)

lemma lex_pair:
  "decode_uXXXX (take 4 s1) = Some uni \<Longrightarrow> 0xD800 \<le> uni \<Longrightarrow> uni \<le> 0xDBFF \<Longrightarrow>
   take 2 (drop 4 s1) = [0x5C, 0x75] \<Longrightarrow>
   decode_uXXXX (take 4 (drop 6 s1)) = Some uni2 \<Longrightarrow> 0xDC00 \<le> uni2 \<Longrightarrow> uni2 \<le> 0xDFFF \<Longrightarrow>
   lex (Some acc) (0x5C # 0x75 # s1) =
     lex (Some (acc @ [0x10000 + (uni - 0xD800) * 1024 + (uni2 - 0xDC00)])) (drop 10 s1)"
  by (simp add: lex.simps)

lemma lex_escape:
  assumes "scalar_value c"
  shows "lex (Some acc) (escape_ascii c @ s) = lex (Some (acc @ [c])) s"
proof -
  consider (short) "c = 0x5C \<or> c = 0x22 \<or> c = 0x08 \<or> c = 0x0C \<or> c = 0x0A \<or> c = 0x0D \<or> c = 0x09"
    | (plain) "0x20 \<le> c" "c \<le> 0x7E" "c \<noteq> 0x5C" "c \<noteq> 0x22"
    | (u) "c < 0x20 \<or> 0x7E < c" "c < 0x10000" "c \<noteq> 0x08" "c \<noteq> 0x0C" "c \<noteq> 0x0A" "c \<noteq> 0x0D" "c \<noteq> 0x09"
    | (pair) "0x10000 \<le> c"
    by linarith
  then show ?thesis
  proof cases
    case short
    then show ?thesis
      by (auto simp: escape_ascii_def lex_short backslash_def)
  next
    case plain
    then show ?thesis
      by (auto simp: escape_ascii_def lex_plain)
  next
    case u
    have e: "escape_ascii c = [0x5C, 0x75] @ hex4 c"
      using u by (auto simp: escape_ascii_def)
    have d: "decode_uXXXX (take 4 (hex4 c @ s)) = Some c"
      using u by (simp add: hex4_length decode_hex4)
    have n: "c < 0xD800 \<or> 0xDBFF < c"
      using assms by (auto simp: scalar_value_def)
    show ?thesis
      using lex_u [OF d n, of acc] by (simp add: e hex4_length)
  next
    case pair
    define n where "n = c - 0x10000"
    define s1 where "s1 = 0xD800 + n div 1024 mod 1024"
    define s2 where "s2 = 0xDC00 + n mod 1024"
    have c: "c < 0x110000" using assms pair by (auto simp: scalar_value_def)
    have nb: "n < 0x100000" using c pair by (simp add: n_def)
    have e: "escape_ascii c = [0x5C, 0x75] @ hex4 s1 @ [0x5C, 0x75] @ hex4 s2"
      using pair by (simp add: escape_ascii_def Let_def n_def s1_def s2_def)
    let ?t = "hex4 s1 @ [0x5C, 0x75] @ hex4 s2 @ s"
    have b1: "0xD800 \<le> s1" "s1 \<le> 0xDBFF" using nb by (simp_all add: s1_def)
    have b2: "0xDC00 \<le> s2" "s2 \<le> 0xDFFF" by (simp_all add: s2_def)
    have d1: "decode_uXXXX (take 4 ?t) = Some s1"
      using b1 by (simp add: hex4_length decode_hex4)
    have t2: "take 2 (drop 4 ?t) = [0x5C, 0x75]"
      by (simp add: hex4_length)
    have dr6: "drop 6 ?t = hex4 s2 @ s"
      by (simp add: hex4_length)
    have d2: "decode_uXXXX (take 4 (drop 6 ?t)) = Some s2"
      using b2 by (simp add: dr6 hex4_length decode_hex4)
    have dr10: "drop 10 ?t = s"
      by (simp add: hex4_length)
    have v: "0x10000 + (s1 - 0xD800) * 1024 + (s2 - 0xDC00) = c"
      using nb pair by (simp add: s1_def s2_def n_def)
    have "lex (Some acc) (0x5C # 0x75 # ?t) = lex (Some (acc @ [c])) s"
      using lex_pair [OF d1 b1 t2 d2 b2, of acc] unfolding dr10 v .
    then show ?thesis by (simp add: e)
  qed
qed

lemma lex_string_body:
  "valid_text s \<Longrightarrow> lex (Some acc) (concat (map escape_ascii s) @ t) = lex (Some (acc @ s)) t"
proof (induction s arbitrary: acc)
  case Nil
  then show ?case by simp
next
  case (Cons c s)
  then have c: "scalar_value c" and s: "valid_text s" by (simp_all add: valid_text_def)
  show ?case
    using Cons.IH [OF s, of "acc @ [c]"] lex_escape [OF c, of acc "concat (map escape_ascii s) @ t"]
    by simp
qed

lemma lex_string:
  "valid_text s \<Longrightarrow> lex None (encode_basestring_ascii s @ t) = emit (T_string s) (lex None t)"
  using lex_string_body [of s "[]" "0x22 # t"]
  by (simp add: encode_basestring_ascii_def lex_open lex_close)

lemma join_Cons: "join sep (x # xs) = x @ concat (map (\<lambda>y. sep @ y) xs)"
  by (induction xs arbitrary: x) auto

lemma emit_emits: "emit t r = emits [t] r"
  by (cases r) (simp_all add: emit_def emits_def)

lemma emits_emits: "emits xs (emits ys r) = emits (xs @ ys) r"
  by (cases r) (simp_all add: emits_def)

lemma emits_Nil: "emits [] r = r"
  by (cases r) (simp_all add: emits_def)

lemma lex_space: "lex None (0x20 # s) = lex None s"
  by (simp add: lex.simps)

lemma lex_punct:
  "lex None (0x7B # s) = emits [T_lbrace] (lex None s)"
  "lex None (0x7D # s) = emits [T_rbrace] (lex None s)"
  "lex None (0x5B # s) = emits [T_lbrack] (lex None s)"
  "lex None (0x5D # s) = emits [T_rbrack] (lex None s)"
  "lex None (0x3A # s) = emits [T_colon] (lex None s)"
  "lex None (0x2C # s) = emits [T_comma] (lex None s)"
  by (simp_all add: lex.simps emit_emits)

lemma lex_null: "lex None (0x6E # 0x75 # 0x6C # 0x6C # s) = emits [T_null] (lex None s)"
  by (simp add: lex.simps emit_emits)

lemma lex_end: "lex None [] = Some []"
  by (simp add: lex.simps)

lemma lex_string': "valid_text s \<Longrightarrow>
    lex None (encode_basestring_ascii s @ t) = emits [T_string s] (lex None t)"
  by (simp add: lex_string emit_emits)

lemma lex_items:
  "list_all valid_text xs \<Longrightarrow>
   lex None (concat (map (\<lambda>y. py_str '', '' @ encode_basestring_ascii y) xs) @ t) =
     emits (concat (map (\<lambda>y. [T_comma, T_string y]) xs)) (lex None t)"
proof (induction xs)
  case Nil
  then show ?case by (simp add: emits_Nil)
next
  case (Cons x xs)
  then have x: "valid_text x" and xs: "list_all valid_text xs" by simp_all
  show ?case
    using Cons.IH [OF xs]
    by (simp add: py_str_def lex_punct lex_space lex_string' [OF x] emits_emits)
qed

lemma lex_value:
  assumes "valid_value v"
  shows "lex None (json_value v @ t) = emits (value_tokens v) (lex None t)"
proof (cases v)
  case (Str s)
  then show ?thesis using assms by (simp add: lex_string')
next
  case NoneVal
  then show ?thesis by (simp add: py_str_def lex_null)
next
  case (StrList xs)
  show ?thesis
  proof (cases xs)
    case Nil
    then show ?thesis using StrList by (simp add: py_str_def lex_punct emits_emits)
  next
    case (Cons x ys)
    then have x: "valid_text x" and ys: "list_all valid_text ys"
      using assms StrList by simp_all
    have t: "join [T_comma] (map (\<lambda>x. [T_string x]) (x # ys)) =
        T_string x # concat (map (\<lambda>y. [T_comma, T_string y]) ys)"
      by (simp add: join_Cons comp_def)
    have s: "join (py_str '', '') (map encode_basestring_ascii (x # ys)) =
        encode_basestring_ascii x @ concat (map (\<lambda>y. py_str '', '' @ encode_basestring_ascii y) ys)"
      by (simp add: join_Cons comp_def)
    have "lex None (py_str ''['' @ (encode_basestring_ascii x
            @ concat (map (\<lambda>y. py_str '', '' @ encode_basestring_ascii y) ys)) @ py_str '']'' @ t)
        = emits ([T_lbrack] @ (T_string x # concat (map (\<lambda>y. [T_comma, T_string y]) ys)) @ [T_rbrack])
            (lex None t)"
      using lex_items [OF ys, of "py_str '']'' @ t"] lex_string' [OF x]
      by (simp add: py_str_def lex_punct emits_emits)
    then show ?thesis
      unfolding StrList Cons json_value.simps value_tokens.simps s t by simp
  qed
qed

lemma lex_member:
  assumes "valid_text (key_text k)" and "valid_value v"
  shows "lex None ((json_key k @ py_str '': '' @ json_value v) @ t) =
    emits (member_tokens (key_text k, v)) (lex None t)"
proof -
  have k: "json_key k = encode_basestring_ascii (key_text k)"
    by (cases k) (simp_all add: key_text_def)
  show ?thesis
    using lex_string' [OF assms(1)] lex_value [OF assms(2), of t]
    by (simp add: k py_str_def lex_punct lex_space emits_emits member_tokens_def)
qed


lemma lex_members:
  "list_all valid_item ms \<Longrightarrow>
   lex None (concat (map (\<lambda>m. py_str '', '' @ (json_key (fst m) @ py_str '': '' @ json_value (snd m))) ms) @ t) =
     emits (concat (map (\<lambda>m. T_comma # member_tokens (key_text (fst m), snd m)) ms)) (lex None t)"
proof (induction ms)
  case Nil
  then show ?case by (simp add: emits_Nil)
next
  case (Cons m ms)
  obtain k v where m: "m = (Some k, v)" and k: "valid_text k" and v: "valid_value v"
    using Cons.prems by (cases m; cases "fst m") auto
  have ms: "list_all valid_item ms" using Cons.prems by simp
  have kt: "valid_text (key_text (Some k))" using k by (simp add: key_text_def)
  show ?case
    using Cons.IH [OF ms] lex_member [OF kt v]
    by (simp add: m py_str_def lex_punct lex_space emits_emits)
qed

lemma lex_json_dumps:
  assumes "list_all valid_item d"
  shows "lex None (json_dumps d) = Some (dict_tokens d)"
proof (cases d)
  case Nil
  then show ?thesis
    by (simp add: json_dumps_def dict_tokens_def py_str_def lex_punct lex_end emits_def)
next
  case (Cons m ms)
  obtain k v where m: "m = (Some k, v)" and k: "valid_text k" and v: "valid_value v"
    using assms Cons by (cases m; cases "fst m") auto
  have ms: "list_all valid_item ms" using assms Cons by simp
  have kt: "valid_text (key_text (Some k))" using k by (simp add: key_text_def)
  have s: "join (py_str '', '') (map (\<lambda>(k, v). json_key k @ py_str '': '' @ json_value v) (m # ms)) =
      (json_key (Some k) @ py_str '': '' @ json_value v) @
      concat (map (\<lambda>m. py_str '', '' @ (json_key (fst m) @ py_str '': '' @ json_value (snd m))) ms)"
    by (simp add: join_Cons comp_def m case_prod_beta)
  have t: "join [T_comma] (map (\<lambda>m. member_tokens (key_text (fst m), snd m)) (m # ms)) =
      member_tokens (key_text (Some k), v) @
      concat (map (\<lambda>m. T_comma # member_tokens (key_text (fst m), snd m)) ms)"
    by (simp add: join_Cons comp_def m)
  have e: "lex None (py_str ''}'') = Some [T_rbrace]"
    by (simp add: py_str_def lex_punct lex_end emits_def)
  have "lex None (py_str ''{'' @ ((json_key (Some k) @ py_str '': '' @ json_value v) @
      concat (map (\<lambda>m. py_str '', '' @ (json_key (fst m) @ py_str '': '' @ json_value (snd m))) ms))
      @ py_str ''}'') =
    Some ([T_lbrace] @ (member_tokens (key_text (Some k), v) @
      concat (map (\<lambda>m. T_comma # member_tokens (key_text (fst m), snd m)) ms)) @ [T_rbrace])"
    using lex_members [OF ms, of "py_str ''}''"]
      lex_member [OF kt v,
        of "concat (map (\<lambda>m. py_str '', '' @ (json_key (fst m) @ py_str '': '' @ json_value (snd m))) ms)
            @ py_str ''}''"]
    by (simp add: e emits_def lex_punct py_str_def [of "''{''"])
  then show ?thesis
    unfolding Cons json_dumps_def dict_tokens_def s t by simp
qed

text \<open>The parser reads the tokens of an object.\<close>

lemma parse_items:
  "parse (P_after_item ps k acc) (concat (map (\<lambda>y. [T_comma, T_string y]) ys) @ T_rbrack # ts) =
     parse (P_after_value (ps @ [(Some k, StrList (acc @ ys))])) ts"
  by (induction ys arbitrary: acc) simp_all

lemma parse_value:
  "parse (P_value ps k) (value_tokens v @ ts) = parse (P_after_value (ps @ [(Some k, v)])) ts"
proof (cases v)
  case (StrList xs)
  show ?thesis
  proof (cases xs)
    case Nil
    then show ?thesis using StrList by simp
  next
    case (Cons x ys)
    have t: "join [T_comma] (map (\<lambda>x. [T_string x]) (x # ys)) =
        T_string x # concat (map (\<lambda>y. [T_comma, T_string y]) ys)"
      by (simp add: join_Cons comp_def)
    show ?thesis
      unfolding StrList Cons value_tokens.simps t
      using parse_items [of ps k "[x]" ys ts] by simp
  qed
qed simp_all

lemma parse_member:
  "parse (P_key ps) (member_tokens (k, v) @ ts) = parse (P_after_value (ps @ [(Some k, v)])) ts"
  using parse_value [of ps k v ts] by (simp add: member_tokens_def)

lemma parse_members:
  "parse (P_after_value ps) (concat (map (\<lambda>m. T_comma # member_tokens (key_text (fst m), snd m)) ms) @ [T_rbrace]) =
     Some (ps @ map (\<lambda>m. (Some (key_text (fst m)), snd m)) ms)"
proof (induction ms arbitrary: ps)
  case Nil
  then show ?case by simp
next
  case (Cons m ms)
  show ?case
    using Cons [of "ps @ [(Some (key_text (fst m)), snd m)]"]
    by (simp add: parse_member)
qed

lemma parse_dict_tokens:
  "parse P_start (dict_tokens d) = Some (map (\<lambda>m. (Some (key_text (fst m)), snd m)) d)"
proof (cases d)
  case Nil
  then show ?thesis by (simp add: dict_tokens_def)
next
  case (Cons m ms)
  have t: "join [T_comma] (map (\<lambda>m. member_tokens (key_text (fst m), snd m)) (m # ms)) =
      member_tokens (key_text (fst m), snd m) @
      concat (map (\<lambda>m. T_comma # member_tokens (key_text (fst m), snd m)) ms)"
    by (simp add: join_Cons comp_def)
  have f: "parse P_first_key (member_tokens (k, v) @ ts) = parse (P_after_value [(Some k, v)]) ts"
    for k v ts
    using parse_value [of "[]" k v ts] by (simp add: member_tokens_def)
  show ?thesis
    unfolding Cons dict_tokens_def t
    using parse_members [of "[(Some (key_text (fst m)), snd m)]" ms]
    by (simp add: f)
qed

text \<open>The round trip.\<close>

lemma dict_setitem_new: "k \<notin> fst ` set d \<Longrightarrow> dict_setitem d k v = d @ [(k, v)]"
  by (induction d) auto

lemma dict_foldl_distinct:
  "distinct (map fst (d @ ps)) \<Longrightarrow> foldl (\<lambda>d (k, v). dict_setitem d k v) d ps = d @ ps"
proof (induction ps arbitrary: d)
  case Nil
  then show ?case by simp
next
  case (Cons p ps)
  obtain k v where p: "p = (k, v)" by (cases p)
  have n: "k \<notin> fst ` set d" using Cons.prems by (auto simp: p)
  have "distinct (map fst ((d @ [(k, v)]) @ ps))" using Cons.prems by (simp add: p)
  from Cons.IH [OF this] show ?case by (simp add: p dict_setitem_new [OF n])
qed

lemma dict_from_pairs_distinct: "distinct (map fst ps) \<Longrightarrow> dict_from_pairs ps = ps"
  using dict_foldl_distinct [of "[]" ps] by (simp add: dict_from_pairs_def)

lemma valid_items_keys:
  "list_all valid_item d \<Longrightarrow> map (\<lambda>m. (Some (key_text (fst m)), snd m)) d = d"
proof (induction d)
  case Nil
  then show ?case by simp
next
  case (Cons m d)
  then obtain k v where "m = (Some k, v)" by (cases m; cases "fst m") auto
  then show ?case using Cons by (simp add: key_text_def)
qed

lemma json_round_trip:
  assumes "list_all valid_item d" and "distinct (map fst d)"
  shows "json_loads (map char_of (json_dumps d)) = Inr d"
proof -
  have b: "bytes_decode (map char_of (json_dumps d)) = Some (json_dumps d)"
    by (rule bytes_decode_ascii) (rule json_dumps_ascii)
  show ?thesis
    by (simp add: json_loads_def b lex_json_dumps [OF assms(1)] parse_dict_tokens
        valid_items_keys [OF assms(1)] dict_from_pairs_distinct [OF assms(2)])
qed

lemma decode_row_blob:
  assumes "list_all valid_item d" and "distinct (map fst d)"
  shows "decode_row (row_blob d) = Inr d"
  by (simp add: decode_row_def row_blob_def lzma_compress_def lzma_decompress_def
      json_round_trip [OF assms])

text \<open>
  Claim C1. For every record whose field names are distinct and whose field names and
  values are valid text (empty strings, delimiters and non-ASCII characters included),
  the JSON text of the record is ASCII, so that its UTF-8 encoding is the text itself,
  and decoding the blob that the encoder makes of it (decompress, then parse) yields
  the record again, with its fields in their order.
\<close>

theorem codec_round_trip:
  assumes "distinct (map fst r)"
    and "list_all (\<lambda>kv. valid_text (fst kv) \<and> valid_text (snd kv)) r"
  shows "str_encode (json_dumps (record_dict r)) = Inr (map char_of (json_dumps (record_dict r))) \<and>
         decode_row (lzma_compress (map char_of (json_dumps (record_dict r)))) = Inr (record_dict r)"
proof -
  have v: "list_all valid_item (record_dict r)"
    using assms(2) by (induction r) (simp_all add: record_dict_def)
  have e: "map fst (record_dict r) = map Some (map fst r)"
    by (simp add: record_dict_def)
  have "distinct (map Some (map fst r))"
    by (rule iffD2 [OF distinct_map]) (simp add: assms(1))
  then have d: "distinct (map fst (record_dict r))"
    by (simp only: e)
  show ?thesis
    using decode_row_blob [OF v d] by (simp add: str_encode_json_dumps row_blob_def)
qed

theorem codec_round_trip_witness:
  "decode_row (lzma_compress (map char_of (json_dumps (record_dict sample_record)))) =
     Inr (record_dict sample_record)"
proof -
  have h1: "distinct (map fst sample_record)"
    by (simp add: sample_record_def py_str_def)
  have h2: "list_all (\<lambda>kv. valid_text (fst kv) \<and> valid_text (snd kv)) sample_record"
    by (simp add: sample_record_def py_str_def valid_text_def scalar_value_def)
  show ?thesis
    using codec_round_trip [OF h1 h2] by simp
qed

end
